theory Spec2Isabelle
  imports Complex_Main
begin

section \<open>Data model of minesweeper.py\<close>

text \<open>
  The Python exceptions the modelled code can raise. \<open>RecursionError\<close> is what
  the interpreter raises when \<open>evaluate_tile\<close> nests deeper than its recursion limit.
\<close>

datatype error = KeyError | AttributeError | RecursionError

text \<open>
  The field \<open>tile_type\<close> holds one of the keys of the dictionary \<open>TILE_TYPES\<close>:
  \<open>'unknown'\<close>, \<open>'empty'\<close> or \<open>'mine'\<close>. The code stores no other string in it, so
  the keys are a datatype and the dictionary is a total function.
\<close>

datatype tile_kind = Unknown | Empty | Mine

fun TILE_TYPES :: "tile_kind \<Rightarrow> string" where
  "TILE_TYPES Unknown = ''?''"
| "TILE_TYPES Empty = '' ''"
| "TILE_TYPES Mine = ''!''"

text \<open>
  \<open>DIFFICULTY_MAPPING\<close> is a dictionary with string keys; a key it does not have raises
  KeyError. The densities are Python floats; the model takes the decimal fractions they
  denote.
\<close>

definition DIFFICULTY_MAPPING :: "(string \<times> real) list" where
  "DIFFICULTY_MAPPING = [(''easy'', 0.1), (''medium'', 0.2), (''hard'', 0.3), (''insane'', 0.5)]"

definition lookup :: "(string \<times> 'v) list \<Rightarrow> string \<Rightarrow> error + 'v" where
  "lookup d k = (case map_of d k of None \<Rightarrow> Inl KeyError | Some v \<Rightarrow> Inr v)"

text \<open>
  The dataclass \<open>Tile\<close>. Its fields \<open>x\<close> and \<open>y\<close> are called \<open>tile_x\<close> and
  \<open>tile_y\<close> here.
\<close>

record Tile =
  tile_type :: tile_kind
  revealed :: bool
  tile_x :: int
  tile_y :: int
  n_adjacent_mines :: int

text \<open>
  The dataclass \<open>MinesweeperBoard\<close>; its field \<open>size\<close> is called \<open>bsize\<close>.
  The tiles are objects owned by the grid, and a reference to one of them is its place
  in the grid: the index of its row and its index in the row.
\<close>

record MinesweeperBoard =
  bsize :: int
  difficulty :: string
  board :: "Tile list list"
  n_total_mines :: int

type_synonym tile_ref = "nat \<times> nat"

definition tile_at :: "MinesweeperBoard \<Rightarrow> tile_ref \<Rightarrow> Tile" where
  "tile_at b r = board b ! fst r ! snd r"

definition on_board :: "MinesweeperBoard \<Rightarrow> tile_ref \<Rightarrow> bool" where
  "on_board b r \<longleftrightarrow> fst r < length (board b) \<and> snd r < length (board b ! fst r)"

text \<open>An assignment to fields of the tile object behind a reference.\<close>

definition update_tile :: "MinesweeperBoard \<Rightarrow> tile_ref \<Rightarrow> (Tile \<Rightarrow> Tile) \<Rightarrow> MinesweeperBoard" where
  "update_tile b r f =
     b\<lparr>board := (board b)[fst r := (board b ! fst r)[snd r := f (board b ! fst r ! snd r)]]\<rparr>"

subsection \<open>Tile.__repr__\<close>

fun str_nat :: "nat \<Rightarrow> string" where
  "str_nat n =
     (if n < 10 then [char_of (48 + n)]
      else str_nat (n div 10) @ [char_of (48 + n mod 10)])"

definition str_int :: "int \<Rightarrow> string" where
  "str_int i = (if i < 0 then CHR ''-'' # str_nat (nat (- i)) else str_nat (nat i))"

definition Tile_repr :: "Tile \<Rightarrow> string" where
  "Tile_repr t =
     (if n_adjacent_mines t > 0 then str_int (n_adjacent_mines t)
      else if revealed t then TILE_TYPES (tile_type t)
      else TILE_TYPES Unknown)"

subsection \<open>Construction\<close>

definition board_init :: "int \<Rightarrow> Tile list list" where
  "board_init n =
     map (\<lambda>i. map (\<lambda>j. \<lparr>tile_type = Empty, revealed = False,
                          tile_x = int i, tile_y = int j, n_adjacent_mines = 0\<rparr>)
                   [0..<nat n])
         [0..<nat n]"

definition set_number_of_mines :: "int \<Rightarrow> string \<Rightarrow> error + int" where
  "set_number_of_mines n d =
     (case lookup DIFFICULTY_MAPPING d of
        Inl e \<Rightarrow> Inl e
      | Inr density \<Rightarrow> Inr \<lfloor>real_of_int (n * n) * density\<rfloor>)"

text \<open>The constructor with its \<open>__post_init__\<close>.\<close>

definition new_board :: "int \<Rightarrow> string \<Rightarrow> error + MinesweeperBoard" where
  "new_board n d =
     (case set_number_of_mines n d of
        Inl e \<Rightarrow> Inl e
      | Inr m \<Rightarrow> Inr \<lparr>bsize = n, difficulty = d, board = board_init n, n_total_mines = m\<rparr>)"

subsection \<open>get_tile\<close>

text \<open>
  The two explicit range checks let an index equal to the size through; the subscript
  \<open>self.board[x][y]\<close> then raises IndexError, which the \<open>try\<close> turns into \<open>None\<close>.
  Negative indices never reach the subscript.
\<close>

definition get_tile :: "MinesweeperBoard \<Rightarrow> int \<Rightarrow> int \<Rightarrow> tile_ref option" where
  "get_tile b x y =
     (if x < 0 \<or> x > bsize b then None
      else if y < 0 \<or> y > bsize b then None
      else if nat x < length (board b)
           then (if nat y < length (board b ! nat x) then Some (nat x, nat y) else None)
           else None)"

subsection \<open>display_board\<close>

text \<open>The lines printed. \<open>CHR 0x09\<close> is the tab.\<close>

definition ljust :: "nat \<Rightarrow> string \<Rightarrow> string" where
  "ljust w s = s @ replicate (w - length s) CHR '' ''"

fun join :: "string \<Rightarrow> string list \<Rightarrow> string" where
  "join sep [] = []"
| "join sep [s] = s"
| "join sep (s # ss) = s @ sep @ join sep ss"

definition display_board :: "MinesweeperBoard \<Rightarrow> string list" where
  "display_board b =
     (let col_labels = join '' '' (map (\<lambda>x. ljust 2 (str_nat x)) [0..<nat (bsize b)]);
          header = [CHR 0x09, CHR '' ''] @ col_labels
      in header
         # ([CHR 0x09, CHR '' ''] @ replicate (length header - 2) CHR ''-'')
         # map (\<lambda>(i, row).
                  join '' '' ((str_nat i @ [CHR ''|'', CHR 0x09]) # map (\<lambda>t. Tile_repr t @ '' '') row))
               (enumerate 0 (board b)))"

subsection \<open>populate_board_with_mines\<close>

text \<open>
  The draws of \<open>random.randint\<close> are parameters: \<open>mine_x_coords\<close> and
  \<open>mine_y_coords\<close>. \<open>list(set(zip ...))\<close> keeps one copy of each pair; the order in
  which Python lists the set does not matter, every pair gets the same assignment.
  \<open>tile.tile_type\<close> on the \<open>None\<close> of a failed lookup raises AttributeError.
\<close>

fun plant_mines :: "MinesweeperBoard \<Rightarrow> (int \<times> int) list \<Rightarrow> error + MinesweeperBoard" where
  "plant_mines b [] = Inr b"
| "plant_mines b ((x, y) # coords) =
     (case get_tile b x y of
        None \<Rightarrow> Inl AttributeError
      | Some tile \<Rightarrow> plant_mines (update_tile b tile (\<lambda>t. t\<lparr>tile_type := Mine\<rparr>)) coords)"

definition populate_board_with_mines ::
  "MinesweeperBoard \<Rightarrow> int list \<Rightarrow> int list \<Rightarrow> error + MinesweeperBoard" where
  "populate_board_with_mines b mine_x_coords mine_y_coords =
     (let coords = remdups (zip mine_x_coords mine_y_coords)
      in plant_mines (b\<lparr>n_total_mines := int (length coords)\<rparr>) coords)"

subsection \<open>check_if_mine\<close>

text \<open>
  Returns the flag and the board. What it prints (the message and \<open>display_board\<close>)
  is not part of the result.
\<close>

definition reveal_all :: "Tile list list \<Rightarrow> Tile list list" where
  "reveal_all rows = map (map (\<lambda>t. t\<lparr>revealed := True\<rparr>)) rows"

definition check_if_mine :: "MinesweeperBoard \<Rightarrow> tile_ref \<Rightarrow> bool \<times> MinesweeperBoard" where
  "check_if_mine b tile =
     (if tile_type (tile_at b tile) = Mine
      then (let b1 = update_tile b tile (\<lambda>t. t\<lparr>revealed := True\<rparr>)
            in (False, b1\<lparr>board := reveal_all (board b1)\<rparr>))
      else (True, b))"

subsection \<open>evaluate_tile\<close>

text \<open>
  The eight lookups in the order of the source, then the filter that drops \<open>None\<close> and
  the tiles already revealed.
\<close>

definition adjacent_tiles :: "MinesweeperBoard \<Rightarrow> tile_ref \<Rightarrow> tile_ref list" where
  "adjacent_tiles b tile =
     (let x = tile_x (tile_at b tile); y = tile_y (tile_at b tile)
      in filter (\<lambda>r. \<not> revealed (tile_at b r))
           (List.map_filter id
              [get_tile b (x - 1) (y - 1), get_tile b (x - 1) y, get_tile b (x - 1) (y + 1),
               get_tile b x (y - 1), get_tile b x (y + 1),
               get_tile b (x + 1) (y - 1), get_tile b (x + 1) y, get_tile b (x + 1) (y + 1)]))"

fun count_mines :: "MinesweeperBoard \<Rightarrow> tile_ref list \<Rightarrow> int" where
  "count_mines b [] = 0"
| "count_mines b (t # ts) =
     (if tile_type (tile_at b t) = Mine then 1 else 0) + count_mines b ts"

definition mark_tile :: "MinesweeperBoard \<Rightarrow> tile_ref \<Rightarrow> int \<Rightarrow> MinesweeperBoard" where
  "mark_tile b tile mine_counter =
     update_tile b tile
       (\<lambda>t. t\<lparr>revealed := True, tile_type := Empty, n_adjacent_mines := mine_counter\<rparr>)"

text \<open>
  The state of a run is the board together with the list of the tiles \<open>evaluate_tile\<close>
  has been called on so far, in call order. The first argument is the nesting depth
  still allowed (Python's recursion limit); \<open>None\<close> is the RecursionError. The value the
  method returns (\<open>False\<close> or \<open>None\<close>) is discarded by every caller.
\<close>

type_synonym run = "MinesweeperBoard \<times> tile_ref list"

fun evaluate_tile :: "nat \<Rightarrow> run \<Rightarrow> tile_ref \<Rightarrow> run option"
  and evaluate_each :: "nat \<Rightarrow> run \<Rightarrow> tile_ref list \<Rightarrow> run option" where
  "evaluate_tile 0 s tile = None"
| "evaluate_tile (Suc d) s tile =
     (let adjacent = adjacent_tiles (fst s) tile;
          mine_counter = count_mines (fst s) adjacent
      in if mine_counter > 0
         then Some (mark_tile (fst s) tile mine_counter, snd s @ [tile])
         else evaluate_each d (mark_tile (fst s) tile mine_counter, snd s @ [tile]) adjacent)"
| "evaluate_each d s [] = Some s"
| "evaluate_each d s (t # ts) =
     (case evaluate_tile d s t of
        None \<Rightarrow> None
      | Some s' \<Rightarrow> evaluate_each d s' ts)"

subsection \<open>The game loop\<close>

text \<open>
  One pass through the body of the \<open>while\<close> loop of \<open>minesweeper\<close>, for the row and
  column the player typed. It returns \<open>keep_playing\<close> and the state.
\<close>

definition minesweeper_step :: "nat \<Rightarrow> run \<Rightarrow> int \<times> int \<Rightarrow> error + (bool \<times> run)" where
  "minesweeper_step limit s inp =
     (case get_tile (fst s) (fst inp) (snd inp) of
        None \<Rightarrow> Inl AttributeError
      | Some tile \<Rightarrow>
          if revealed (tile_at (fst s) tile) then Inr (True, s)
          else (let b1 = update_tile (fst s) tile (\<lambda>t. t\<lparr>revealed := True\<rparr>);
                    (keep_playing, b2) = check_if_mine b1 tile
                in case evaluate_tile limit (b2, snd s) tile of
                     None \<Rightarrow> Inl RecursionError
                   | Some s' \<Rightarrow> Inr (keep_playing, s')))"

text \<open>
  The loop over the inputs typed so far. It stops when \<open>keep_playing\<close> is false; when
  the inputs run out the game is still on.
\<close>

fun minesweeper_loop :: "nat \<Rightarrow> run \<Rightarrow> (int \<times> int) list \<Rightarrow> error + (bool \<times> run)" where
  "minesweeper_loop limit s [] = Inr (True, s)"
| "minesweeper_loop limit s (inp # inps) =
     (case minesweeper_step limit s inp of
        Inl e \<Rightarrow> Inl e
      | Inr (keep_playing, s') \<Rightarrow>
          if keep_playing then minesweeper_loop limit s' inps else Inr (False, s'))"

definition minesweeper ::
  "nat \<Rightarrow> int \<Rightarrow> string \<Rightarrow> int list \<Rightarrow> int list \<Rightarrow> (int \<times> int) list \<Rightarrow> error + (bool \<times> run)" where
  "minesweeper limit n d mine_x_coords mine_y_coords inps =
     (case new_board n d of
        Inl e \<Rightarrow> Inl e
      | Inr b \<Rightarrow>
          (case populate_board_with_mines b mine_x_coords mine_y_coords of
             Inl e \<Rightarrow> Inl e
           | Inr b' \<Rightarrow> minesweeper_loop limit (b', []) inps))"

subsection \<open>Sequences of calls\<close>

text \<open>
  The methods a caller can invoke on a board, and the state after a sequence of such
  calls. \<open>get_tile\<close> and \<open>display_board\<close> return a value and leave the board as it is.
  A call that raises ends the sequence with \<open>None\<close>.
\<close>

datatype operation =
    PlaceMines "int list" "int list"
  | GetTile int int
  | CheckMine tile_ref
  | EvaluateTile nat tile_ref
  | DisplayBoard
  | LoopStep nat "int \<times> int"

fun perform :: "run \<Rightarrow> operation \<Rightarrow> run option" where
  "perform s (PlaceMines xs ys) =
     (case populate_board_with_mines (fst s) xs ys of
        Inl e \<Rightarrow> None
      | Inr b \<Rightarrow> Some (b, snd s))"
| "perform s (GetTile x y) = Some s"
| "perform s (CheckMine tile) = Some (snd (check_if_mine (fst s) tile), snd s)"
| "perform s (EvaluateTile limit tile) = evaluate_tile limit s tile"
| "perform s DisplayBoard = Some s"
| "perform s (LoopStep limit inp) =
     (case minesweeper_step limit s inp of
        Inl e \<Rightarrow> None
      | Inr r \<Rightarrow> Some (snd r))"

fun perform_all :: "run \<Rightarrow> operation list \<Rightarrow> run option" where
  "perform_all s [] = Some s"
| "perform_all s (opn # opns) =
     (case perform s opn of
        None \<Rightarrow> None
      | Some s' \<Rightarrow> perform_all s' opns)"

section \<open>Well-formed boards and example boards\<close>

text \<open>
  What \<open>board_init\<close> builds and every operation keeps: \<open>size\<close> rows of \<open>size\<close>
  tiles, each tile carrying its own row and column.
\<close>

definition wf_row :: "int \<Rightarrow> nat \<Rightarrow> Tile list \<Rightarrow> bool" where
  "wf_row n i row \<longleftrightarrow>
     length row = nat n \<and>
     list_all (\<lambda>(j, t). tile_x t = int i \<and> tile_y t = int j) (enumerate 0 row)"

definition wf_board :: "MinesweeperBoard \<Rightarrow> bool" where
  "wf_board b \<longleftrightarrow>
     length (board b) = nat (bsize b) \<and>
     list_all (\<lambda>(i, row). wf_row (bsize b) i row) (enumerate 0 (board b))"

text \<open>A fresh 2 by 2 board, and the same board with a mine at row 0, column 1.\<close>

definition example_board :: MinesweeperBoard where
  "example_board = \<lparr>bsize = 2, difficulty = ''easy'', board = board_init 2, n_total_mines = 0\<rparr>"

definition mined_board :: MinesweeperBoard where
  "mined_board = update_tile (example_board\<lparr>n_total_mines := 1\<rparr>) (0, 1) (\<lambda>t. t\<lparr>tile_type := Mine\<rparr>)"

text \<open>
  The state after the player has opened row 0, column 0 of that board, and a sequence
  of calls made on it.
\<close>

definition played_board :: run where
  "played_board = (mark_tile mined_board (0, 0) 1, [(0, 0)])"

definition example_calls :: "operation list" where
  "example_calls =
     [GetTile 1 1, DisplayBoard, EvaluateTile 4 (1, 0), PlaceMines [1] [1],
      CheckMine (1, 0), LoopStep 4 (0, 1)]"

definition unrevealed_uncounted :: "MinesweeperBoard \<Rightarrow> bool" where
  "unrevealed_uncounted b \<longleftrightarrow>
     list_all (list_all (\<lambda>t. \<not> revealed t \<longrightarrow> n_adjacent_mines t = 0)) (board b)"

subsection \<open>The region of a flood fill\<close>

text \<open>
  The tiles a flood fill from \<open>tile\<close> reaches on the board \<open>b\<close>: the tile itself, and
  every tile that \<open>evaluate_tile\<close> collects on \<open>b\<close> around a tile of the region whose
  counter on \<open>b\<close> is zero. The tiles of the region with a counter of zero are the
  connected region without adjacent mines; the others are the ring of numbered tiles
  around it, from which the fill does not go on.
\<close>

inductive_set flood_region :: "MinesweeperBoard \<Rightarrow> tile_ref \<Rightarrow> tile_ref set"
  for b :: MinesweeperBoard and tile :: tile_ref where
  start: "tile \<in> flood_region b tile"
| spread: "p \<in> flood_region b tile \<Longrightarrow> count_mines b (adjacent_tiles b p) = 0 \<Longrightarrow>
           q \<in> set (adjacent_tiles b p) \<Longrightarrow> q \<in> flood_region b tile"


section \<open>Basic facts\<close>

lemma wf_board_iff:
  "wf_board b \<longleftrightarrow>
     length (board b) = nat (bsize b) \<and>
     (\<forall>i < length (board b).
        length (board b ! i) = nat (bsize b) \<and>
        (\<forall>j < length (board b ! i).
           tile_x (board b ! i ! j) = int i \<and> tile_y (board b ! i ! j) = int j))"
  by (simp add: wf_board_def wf_row_def list_all_length nth_enumerate_eq)

lemma wf_board_init:
  "wf_board \<lparr>bsize = n, difficulty = d, board = board_init n, n_total_mines = m\<rparr>"
  by (simp add: wf_board_iff board_init_def)

lemma wf_new_board: "new_board n d = Inr b \<Longrightarrow> wf_board b"
  by (auto simp: new_board_def wf_board_init split: sum.splits)

lemma wf_example_board: "wf_board example_board"
  unfolding example_board_def by (rule wf_board_init)

lemma bsize_example_board [simp]: "bsize example_board = 2"
  by (simp add: example_board_def)

lemma on_board_wf:
  "wf_board b \<Longrightarrow> on_board b r \<longleftrightarrow> int (fst r) < bsize b \<and> int (snd r) < bsize b"
  by (auto simp: wf_board_iff on_board_def)

lemma get_tile_wf:
  "wf_board b \<Longrightarrow>
   get_tile b x y =
     (if 0 \<le> x \<and> x < bsize b \<and> 0 \<le> y \<and> y < bsize b then Some (nat x, nat y) else None)"
  by (auto simp: wf_board_iff get_tile_def)

section \<open>get_tile\<close>

text \<open>
  C5: on a board of size N, \<open>get_tile\<close> returns the tile stored at (x, y) when both
  coordinates lie in [0, N-1], and \<open>None\<close> for every other pair of integers. It has no
  error result.
\<close>

theorem get_tile_in_range_or_absent:
  "wf_board b \<Longrightarrow>
   (0 \<le> x \<and> x < bsize b \<and> 0 \<le> y \<and> y < bsize b \<longrightarrow>
      get_tile b x y = Some (nat x, nat y) \<and>
      tile_at b (nat x, nat y) = board b ! nat x ! nat y) \<and>
   (\<not> (0 \<le> x \<and> x < bsize b \<and> 0 \<le> y \<and> y < bsize b) \<longrightarrow> get_tile b x y = None)"
  by (simp add: get_tile_wf tile_at_def)

theorem get_tile_in_range_or_absent_witness:
  "get_tile example_board 1 0 = Some (1, 0) \<and>
   get_tile example_board 2 0 = None \<and>
   get_tile example_board 0 (- 1) = None \<and>
   get_tile example_board 3 1 = None"
  using get_tile_in_range_or_absent [OF wf_example_board, of 1 0]
        get_tile_in_range_or_absent [OF wf_example_board, of 2 0]
        get_tile_in_range_or_absent [OF wf_example_board, of 0 "- 1"]
        get_tile_in_range_or_absent [OF wf_example_board, of 3 1]
  by simp

section \<open>Assignments to a tile\<close>

lemma nth_row_update:
  "(xs[i := ys]) ! k = (if k = i \<and> i < length xs then ys else xs ! k)"
  by (cases "i < length xs") (auto simp: nth_list_update list_update_beyond)

lemma bsize_update_tile [simp]: "bsize (update_tile b r f) = bsize b"
  by (simp add: update_tile_def)

lemma n_total_mines_update_tile [simp]: "n_total_mines (update_tile b r f) = n_total_mines b"
  by (simp add: update_tile_def)

lemma difficulty_update_tile [simp]: "difficulty (update_tile b r f) = difficulty b"
  by (simp add: update_tile_def)

lemma length_board_update_tile [simp]: "length (board (update_tile b r f)) = length (board b)"
  by (simp add: update_tile_def)

lemma length_row_update_tile [simp]:
  "length (board (update_tile b r f) ! i) = length (board b ! i)"
  by (simp add: update_tile_def nth_row_update)

lemma on_board_update_tile [simp]: "on_board (update_tile b r f) q = on_board b q"
  by (simp add: on_board_def)

lemma tile_at_update_other: "q \<noteq> r \<Longrightarrow> tile_at (update_tile b r f) q = tile_at b q"
  by (cases q; cases r) (auto simp: update_tile_def tile_at_def nth_row_update)

lemma tile_at_update_same: "on_board b r \<Longrightarrow> tile_at (update_tile b r f) r = f (tile_at b r)"
  by (auto simp: on_board_def update_tile_def tile_at_def)

lemma tile_at_update_tile:
  "on_board b r \<Longrightarrow>
   tile_at (update_tile b r f) q = (if q = r then f (tile_at b r) else tile_at b q)"
  by (simp add: tile_at_update_other tile_at_update_same)

lemma update_tile_off_board: "\<not> on_board b r \<Longrightarrow> update_tile b r f = b"
  by (cases "fst r < length (board b)")
     (auto simp: on_board_def update_tile_def list_update_beyond)

lemma wf_update_tile:
  assumes "wf_board b" and "\<And>t. tile_x (f t) = tile_x t \<and> tile_y (f t) = tile_y t"
  shows "wf_board (update_tile b r f)"
  using assms unfolding wf_board_iff
  by (auto simp: update_tile_def nth_row_update nth_list_update)

lemma wf_tile_xy:
  "wf_board b \<Longrightarrow> on_board b r \<Longrightarrow>
   tile_x (tile_at b r) = int (fst r) \<and> tile_y (tile_at b r) = int (snd r)"
  unfolding wf_board_iff on_board_def tile_at_def by blast

lemma evaluate_preserves:
  assumes "\<And>b t c. P b \<Longrightarrow> P (mark_tile b t c)"
  shows "evaluate_tile d s tile = Some s' \<Longrightarrow> P (fst s) \<Longrightarrow> P (fst s')"
    and "evaluate_each d s ts = Some s' \<Longrightarrow> P (fst s) \<Longrightarrow> P (fst s')"
proof (induction d s tile and d s ts arbitrary: s' and s' rule: evaluate_tile_evaluate_each.induct)
  case (1 s tile)
  then show ?case by simp
next
  case (2 d s tile)
  let ?adj = "adjacent_tiles (fst s) tile"
  let ?c = "count_mines (fst s) ?adj"
  have P': "P (mark_tile (fst s) tile ?c)" using "2.prems"(2) assms by blast
  show ?case
  proof (cases "?c > 0")
    case True
    with "2.prems"(1) P' show ?thesis by (auto simp: Let_def)
  next
    case False
    with "2.prems"(1) have "evaluate_each d (mark_tile (fst s) tile ?c, snd s @ [tile]) ?adj = Some s'"
      by (simp add: Let_def)
    from "2.IH"[OF refl refl False this] P' show ?thesis by simp
  qed
next
  case (3 d s)
  then show ?case by simp
next
  case (4 d s t ts)
  then show ?case by (auto split: option.splits)
qed

lemma plant_mines_preserves:
  assumes "\<And>b r. P b \<Longrightarrow> P (update_tile b r (\<lambda>t. t\<lparr>tile_type := Mine\<rparr>))"
  shows "plant_mines b coords = Inr b' \<Longrightarrow> P b \<Longrightarrow> P b'"
proof (induction b coords rule: plant_mines.induct)
  case (1 b)
  then show ?case by simp
next
  case (2 b x y coords)
  then show ?case using assms by (auto split: option.splits)
qed

section \<open>check_if_mine\<close>

lemma on_board_reveal_all [simp]:
  "on_board (b\<lparr>board := reveal_all (board b)\<rparr>) p = on_board b p"
  by (auto simp: on_board_def reveal_all_def)

lemma tile_at_reveal_all:
  "on_board b p \<Longrightarrow>
   tile_at (b\<lparr>board := reveal_all (board b)\<rparr>) p = (tile_at b p)\<lparr>revealed := True\<rparr>"
  by (simp add: on_board_def tile_at_def reveal_all_def)

lemma on_board_mark_tile [simp]: "on_board (mark_tile b t c) p = on_board b p"
  by (simp add: mark_tile_def)

lemma on_board_check_if_mine [simp]: "on_board (snd (check_if_mine b t)) p = on_board b p"
  by (simp add: check_if_mine_def Let_def)

lemma revealed_update_tile:
  assumes "revealed (tile_at b p)" and "\<And>t. revealed t \<Longrightarrow> revealed (f t)"
  shows "revealed (tile_at (update_tile b r f) p)"
proof (cases "on_board b r")
  case True
  then show ?thesis using assms by (auto simp: tile_at_update_tile)
next
  case False
  then show ?thesis using assms by (simp add: update_tile_off_board)
qed

lemma revealed_check_if_mine:
  "on_board b p \<Longrightarrow> revealed (tile_at b p) \<Longrightarrow> revealed (tile_at (snd (check_if_mine b t)) p)"
  by (simp add: check_if_mine_def Let_def tile_at_reveal_all)

lemma check_if_mine_all_revealed:
  "tile_type (tile_at b t) = Mine \<Longrightarrow> on_board b p \<Longrightarrow>
   revealed (tile_at (snd (check_if_mine b t)) p)"
  by (simp add: check_if_mine_def Let_def tile_at_reveal_all)

lemma wf_mined_board: "wf_board mined_board"
  unfolding mined_board_def example_board_def
  by (rule wf_update_tile) (simp_all add: wf_board_iff board_init_def)



section \<open>Invariants of every sequence of calls\<close>

text \<open>
  A property of the board that each single assignment of the code keeps is kept by every
  method and by every sequence of calls.
\<close>

lemma check_if_mine_preserves:
  assumes "\<And>b r. P b \<Longrightarrow> P (update_tile b r (\<lambda>t. t\<lparr>revealed := True\<rparr>))"
    and "\<And>b. P b \<Longrightarrow> P (b\<lparr>board := reveal_all (board b)\<rparr>)"
  shows "P b \<Longrightarrow> P (snd (check_if_mine b t))"
  using assms by (simp add: check_if_mine_def Let_def)

lemma populate_preserves:
  assumes "\<And>b r. P b \<Longrightarrow> P (update_tile b r (\<lambda>t. t\<lparr>tile_type := Mine\<rparr>))"
    and "\<And>b m. P b \<Longrightarrow> P (b\<lparr>n_total_mines := m\<rparr>)"
  shows "populate_board_with_mines b xs ys = Inr b' \<Longrightarrow> P b \<Longrightarrow> P b'"
  unfolding populate_board_with_mines_def Let_def
  using plant_mines_preserves [where P = P] assms by blast

lemma minesweeper_step_preserves:
  assumes rev: "\<And>b r. P b \<Longrightarrow> P (update_tile b r (\<lambda>t. t\<lparr>revealed := True\<rparr>))"
    and all: "\<And>b. P b \<Longrightarrow> P (b\<lparr>board := reveal_all (board b)\<rparr>)"
    and mark: "\<And>b t c. P b \<Longrightarrow> P (mark_tile b t c)"
    and step: "minesweeper_step d s inp = Inr r" and P: "P (fst s)"
  shows "P (fst (snd r))"
proof (cases "get_tile (fst s) (fst inp) (snd inp)")
  case None
  then show ?thesis using step by (simp add: minesweeper_step_def)
next
  case (Some tile)
  show ?thesis
  proof (cases "revealed (tile_at (fst s) tile)")
    case True
    then show ?thesis using step P Some by (auto simp: minesweeper_step_def)
  next
    case False
    let ?b1 = "update_tile (fst s) tile (\<lambda>t. t\<lparr>revealed := True\<rparr>)"
    let ?b2 = "snd (check_if_mine ?b1 tile)"
    have "P ?b1" using P rev by blast
    then have 2: "P ?b2" using check_if_mine_preserves [where P = P] rev all by blast
    from step Some False obtain s' where
      ev: "evaluate_tile d (?b2, snd s) tile = Some s'" and r: "snd r = s'"
      by (auto simp: minesweeper_step_def Let_def split: prod.splits option.splits)
    from evaluate_preserves(1) [where P = P, OF mark ev] 2 r show ?thesis by simp
  qed
qed

lemma perform_preserves:
  assumes mine: "\<And>b r. P b \<Longrightarrow> P (update_tile b r (\<lambda>t. t\<lparr>tile_type := Mine\<rparr>))"
    and total: "\<And>b m. P b \<Longrightarrow> P (b\<lparr>n_total_mines := m\<rparr>)"
    and rev: "\<And>b r. P b \<Longrightarrow> P (update_tile b r (\<lambda>t. t\<lparr>revealed := True\<rparr>))"
    and all: "\<And>b. P b \<Longrightarrow> P (b\<lparr>board := reveal_all (board b)\<rparr>)"
    and mark: "\<And>b t c. P b \<Longrightarrow> P (mark_tile b t c)"
    and run: "perform s opn = Some s'" and P: "P (fst s)"
  shows "P (fst s')"
proof (cases opn)
  case (PlaceMines xs ys)
  then show ?thesis
    using run P populate_preserves [where P = P, OF mine total, of "fst s" xs ys]
    by (auto split: sum.splits)
next
  case (GetTile x y)
  then show ?thesis using run P by auto
next
  case (CheckMine t)
  then show ?thesis
    using run P check_if_mine_preserves [where P = P, OF rev all, of "fst s" t] by auto
next
  case (EvaluateTile d t)
  then show ?thesis
    using run P evaluate_preserves(1) [where P = P, OF mark, of d s t s'] by auto
next
  case DisplayBoard
  then show ?thesis using run P by auto
next
  case (LoopStep d inp)
  then show ?thesis
    using run P minesweeper_step_preserves [where P = P, OF rev all mark, of d s inp]
    by (auto split: sum.splits)
qed

lemma perform_all_preserves:
  assumes mine: "\<And>b r. P b \<Longrightarrow> P (update_tile b r (\<lambda>t. t\<lparr>tile_type := Mine\<rparr>))"
    and total: "\<And>b m. P b \<Longrightarrow> P (b\<lparr>n_total_mines := m\<rparr>)"
    and rev: "\<And>b r. P b \<Longrightarrow> P (update_tile b r (\<lambda>t. t\<lparr>revealed := True\<rparr>))"
    and all: "\<And>b. P b \<Longrightarrow> P (b\<lparr>board := reveal_all (board b)\<rparr>)"
    and mark: "\<And>b t c. P b \<Longrightarrow> P (mark_tile b t c)"
  shows "perform_all s opns = Some s' \<Longrightarrow> P (fst s) \<Longrightarrow> P (fst s')"
proof (induction opns arbitrary: s)
  case Nil
  then show ?case by simp
next
  case (Cons opn opns)
  from Cons.prems(1) obtain s1 where 1: "perform s opn = Some s1" and 2: "perform_all s1 opns = Some s'"
    by (auto split: option.splits)
  from perform_preserves [where P = P, OF mine total rev all mark 1] Cons.prems(2) have "P (fst s1)"
    by simp
  with Cons.IH [OF 2] show ?case by simp
qed

lemma revealed_mark_tile:
  "revealed (tile_at b p) \<Longrightarrow> revealed (tile_at (mark_tile b t c) p)"
  unfolding mark_tile_def by (rule revealed_update_tile) simp_all

text \<open>
  C9: over every sequence of calls (mine placement, \<open>get_tile\<close>, \<open>check_if_mine\<close>,
  \<open>evaluate_tile\<close>, \<open>display_board\<close>, passes of the game loop), a tile that is
  revealed stays revealed.
\<close>

theorem revealed_never_reset:
  assumes "perform_all s opns = Some s'" and "on_board (fst s) p" and "revealed (tile_at (fst s) p)"
  shows "on_board (fst s') p \<and> revealed (tile_at (fst s') p)"
proof (rule perform_all_preserves
         [where P = "\<lambda>b. on_board b p \<and> revealed (tile_at b p)", OF _ _ _ _ _ assms(1)])
  show "on_board (fst s) p \<and> revealed (tile_at (fst s) p)" using assms by simp
qed (simp_all add: revealed_update_tile revealed_mark_tile tile_at_reveal_all,
     simp_all add: on_board_def tile_at_def)

theorem revealed_never_reset_witness:
  "revealed (tile_at (fst (the (perform_all played_board example_calls))) (0, 0))"
proof -
  have "perform_all played_board example_calls \<noteq> None" by code_simp
  then have 1: "perform_all played_board example_calls
                  = Some (the (perform_all played_board example_calls))" by simp
  have 2: "on_board (fst played_board) (0, 0)" by code_simp
  have 3: "revealed (tile_at (fst played_board) (0, 0))" by code_simp
  from revealed_never_reset [OF 1 2 3] show ?thesis by simp
qed

lemma unrevealed_uncounted_iff:
  "unrevealed_uncounted b \<longleftrightarrow>
     (\<forall>p. on_board b p \<longrightarrow> \<not> revealed (tile_at b p) \<longrightarrow> n_adjacent_mines (tile_at b p) = 0)"
  by (auto simp: unrevealed_uncounted_def list_all_length on_board_def tile_at_def)

lemma unrevealed_uncounted_update_tile:
  assumes "unrevealed_uncounted b"
    and "\<And>t. (\<not> revealed t \<longrightarrow> n_adjacent_mines t = 0) \<Longrightarrow>
              (\<not> revealed (f t) \<longrightarrow> n_adjacent_mines (f t) = 0)"
  shows "unrevealed_uncounted (update_tile b r f)"
proof (cases "on_board b r")
  case True
  then show ?thesis using assms
    unfolding unrevealed_uncounted_iff by (auto simp: tile_at_update_tile)
next
  case False
  then show ?thesis using assms by (simp add: update_tile_off_board)
qed

lemma unrevealed_uncounted_new_board: "new_board n d = Inr b \<Longrightarrow> unrevealed_uncounted b"
  by (auto simp: new_board_def unrevealed_uncounted_def board_init_def list_all_iff
           split: sum.splits)

lemma unrevealed_uncounted_perform_all:
  assumes "perform_all s opns = Some s'" and "unrevealed_uncounted (fst s)"
  shows "unrevealed_uncounted (fst s')"
proof (rule perform_all_preserves [where P = unrevealed_uncounted, OF _ _ _ _ _ assms])
  show "unrevealed_uncounted (mark_tile b t c)" if "unrevealed_uncounted b" for b t c
    unfolding mark_tile_def using that by (rule unrevealed_uncounted_update_tile) simp
  show "unrevealed_uncounted (b\<lparr>board := reveal_all (board b)\<rparr>)" for b
    by (simp add: unrevealed_uncounted_def reveal_all_def list_all_iff)
qed (simp_all add: unrevealed_uncounted_update_tile, simp add: unrevealed_uncounted_def)

text \<open>
  C10: every call keeps the invariant that an unrevealed tile has \<open>n_adjacent_mines = 0\<close>,
  and so, from a new board on, every unrevealed tile is printed as the placeholder
  \<open>?\<close>.
\<close>

theorem unrevealed_tile_renders_unknown:
  "(unrevealed_uncounted (fst s) \<and> perform s opn = Some s' \<longrightarrow> unrevealed_uncounted (fst s')) \<and>
   (new_board n d = Inr b \<and> perform_all (b, []) opns = Some s'' \<and>
    on_board (fst s'') p \<and> \<not> revealed (tile_at (fst s'') p) \<longrightarrow>
      n_adjacent_mines (tile_at (fst s'') p) = 0 \<and> Tile_repr (tile_at (fst s'') p) = ''?'')"
proof (intro conjI impI)
  assume "unrevealed_uncounted (fst s) \<and> perform s opn = Some s'"
  then have "perform_all s [opn] = Some s'" and "unrevealed_uncounted (fst s)" by simp_all
  then show "unrevealed_uncounted (fst s')" by (rule unrevealed_uncounted_perform_all)
next
  assume a: "new_board n d = Inr b \<and> perform_all (b, []) opns = Some s'' \<and>
             on_board (fst s'') p \<and> \<not> revealed (tile_at (fst s'') p)"
  then have "unrevealed_uncounted (fst s'')"
    using unrevealed_uncounted_perform_all [of "(b, [])" opns s''] unrevealed_uncounted_new_board
    by auto
  with a show "n_adjacent_mines (tile_at (fst s'') p) = 0"
    unfolding unrevealed_uncounted_iff by blast
  with a show "Tile_repr (tile_at (fst s'') p) = ''?''"
    by (simp add: Tile_repr_def)
qed

theorem unrevealed_tile_renders_unknown_witness:
  "unrevealed_uncounted (fst (the (perform (mined_board, []) (LoopStep 4 (0, 0))))) \<and>
   Tile_repr (tile_at (fst (the (perform_all (example_board, []) [PlaceMines [0] [1], LoopStep 4 (0, 0)]))) (1, 1))
     = ''?''"
proof -
  have 1: "unrevealed_uncounted (fst (mined_board, []))" by code_simp
  have "perform (mined_board, []) (LoopStep 4 (0, 0)) \<noteq> None" by code_simp
  then have 2: "perform (mined_board, []) (LoopStep 4 (0, 0))
                  = Some (the (perform (mined_board, []) (LoopStep 4 (0, 0))))" by simp
  have 3: "new_board 2 ''easy'' = Inr example_board" by code_simp
  have "perform_all (example_board, []) [PlaceMines [0] [1], LoopStep 4 (0, 0)] \<noteq> None" by code_simp
  then have 4: "perform_all (example_board, []) [PlaceMines [0] [1], LoopStep 4 (0, 0)]
                  = Some (the (perform_all (example_board, []) [PlaceMines [0] [1], LoopStep 4 (0, 0)]))" by simp
  have 5: "on_board (fst (the (perform_all (example_board, []) [PlaceMines [0] [1], LoopStep 4 (0, 0)]))) (1, 1)"
    by code_simp
  have 6: "\<not> revealed (tile_at (fst (the (perform_all (example_board, []) [PlaceMines [0] [1], LoopStep 4 (0, 0)]))) (1, 1))"
    by code_simp
  show ?thesis
    using unrevealed_tile_renders_unknown
            [of "(mined_board, [])" "LoopStep 4 (0, 0)"
                "the (perform (mined_board, []) (LoopStep 4 (0, 0)))"
                2 "''easy''" example_board "[PlaceMines [0] [1], LoopStep 4 (0, 0)]"
                "the (perform_all (example_board, []) [PlaceMines [0] [1], LoopStep 4 (0, 0)])" "(1, 1)"]
          1 2 3 4 5 6
    by blast
qed

section \<open>populate_board_with_mines\<close>

lemma density_nonneg: "lookup DIFFICULTY_MAPPING d = Inr density \<Longrightarrow> 0 \<le> density"
  by (auto simp: lookup_def DIFFICULTY_MAPPING_def split: if_splits)

lemma n_total_mines_new_board:
  "new_board n d = Inr b \<Longrightarrow>
   \<exists>density. lookup DIFFICULTY_MAPPING d = Inr density \<and>
             n_total_mines b = \<lfloor>real_of_int (n * n) * density\<rfloor> \<and> 0 \<le> n_total_mines b"
  by (auto simp: new_board_def set_number_of_mines_def density_nonneg split: sum.splits)

lemma new_board_fields:
  "new_board n d = Inr b \<Longrightarrow> bsize b = n \<and> board b = board_init n"
  by (auto simp: new_board_def split: sum.splits)

lemma new_board_no_mines:
  "new_board n d = Inr b \<Longrightarrow> on_board b p \<Longrightarrow> tile_type (tile_at b p) = Empty"
  by (auto simp: new_board_def board_init_def on_board_def tile_at_def split: sum.splits)

lemma plant_mines_result:
  assumes "wf_board b"
    and "\<forall>c \<in> set coords. 0 \<le> fst c \<and> fst c < bsize b \<and> 0 \<le> snd c \<and> snd c < bsize b"
  shows "\<exists>b'. plant_mines b coords = Inr b' \<and> n_total_mines b' = n_total_mines b \<and>
              (\<forall>p. on_board b' p = on_board b p) \<and>
              (\<forall>p. on_board b p \<longrightarrow>
                 (tile_type (tile_at b' p) = Mine \<longleftrightarrow>
                  tile_type (tile_at b p) = Mine \<or> (int (fst p), int (snd p)) \<in> set coords))"
  using assms
proof (induction coords arbitrary: b)
  case Nil
  then show ?case by simp
next
  case (Cons c coords)
  obtain x y where c: "c = (x, y)" by (cases c)
  let ?r = "(nat x, nat y)"
  let ?b1 = "update_tile b ?r (\<lambda>t. t\<lparr>tile_type := Mine\<rparr>)"
  from Cons.prems c have rng: "0 \<le> x" "x < bsize b" "0 \<le> y" "y < bsize b" by auto
  with Cons.prems(1) have g: "get_tile b x y = Some ?r" by (simp add: get_tile_wf)
  have onr: "on_board b ?r" using rng Cons.prems(1) by (simp add: on_board_wf)
  have wf1: "wf_board ?b1" using Cons.prems(1) by (rule wf_update_tile) simp
  have "\<forall>c \<in> set coords. 0 \<le> fst c \<and> fst c < bsize ?b1 \<and> 0 \<le> snd c \<and> snd c < bsize ?b1"
    using Cons.prems(2) by simp
  from Cons.IH [OF wf1 this] obtain b' where
    b': "plant_mines ?b1 coords = Inr b'" "n_total_mines b' = n_total_mines ?b1"
        "\<forall>p. on_board b' p = on_board ?b1 p"
        "\<forall>p. on_board ?b1 p \<longrightarrow>
           (tile_type (tile_at b' p) = Mine \<longleftrightarrow>
            tile_type (tile_at ?b1 p) = Mine \<or> (int (fst p), int (snd p)) \<in> set coords)"
    by blast
  have "tile_type (tile_at b' p) = Mine \<longleftrightarrow>
        tile_type (tile_at b p) = Mine \<or> (int (fst p), int (snd p)) \<in> set (c # coords)"
    if p: "on_board b p" for p
  proof -
    have "p = ?r \<longleftrightarrow> (int (fst p), int (snd p)) = c"
      using rng c by (cases p) auto
    moreover from b'(4) [rule_format, of p] p have
      "tile_type (tile_at b' p) = Mine \<longleftrightarrow>
       tile_type (tile_at ?b1 p) = Mine \<or> (int (fst p), int (snd p)) \<in> set coords"
      by simp
    ultimately show ?thesis using onr by (auto simp: tile_at_update_tile)
  qed
  with b' g c show ?case by simp
qed

lemma wf_plant_mines: "plant_mines b coords = Inr b' \<Longrightarrow> wf_board b \<Longrightarrow> wf_board b' \<and> bsize b' = bsize b"
  by (rule plant_mines_preserves [where P = "\<lambda>c. wf_board c \<and> bsize c = bsize b"])
     (simp_all add: wf_update_tile)

text \<open>
  C7: on a new board, with the coordinates drawn in range and as many of them as the
  initial \<open>n_total_mines\<close>, placement succeeds and keeps the grid (its size, the
  tiles on it and their positions); afterwards every drawn position is a tile of the
  grid of kind Mine, no other tile is a mine, the mines on the grid are as many as the
  distinct drawn positions, \<open>n_total_mines\<close> is that number, and it is at most the
  floor of size squared times the density of the difficulty.
\<close>

theorem populate_places_distinct_samples:
  assumes "new_board n d = Inr b"
    and "length xs = nat (n_total_mines b)" and "length ys = nat (n_total_mines b)"
    and "\<forall>x \<in> set xs. 0 \<le> x \<and> x \<le> n - 1" and "\<forall>y \<in> set ys. 0 \<le> y \<and> y \<le> n - 1"
  shows "\<exists>b' density.
           populate_board_with_mines b xs ys = Inr b' \<and>
           lookup DIFFICULTY_MAPPING d = Inr density \<and>
           wf_board b' \<and> bsize b' = n \<and>
           (\<forall>p. on_board b' p = on_board b p) \<and>
           (\<forall>c \<in> set (zip xs ys).
              on_board b' (nat (fst c), nat (snd c)) \<and>
              tile_type (tile_at b' (nat (fst c), nat (snd c))) = Mine) \<and>
           (\<forall>p. on_board b' p \<longrightarrow>
              (tile_type (tile_at b' p) = Mine \<longleftrightarrow> (int (fst p), int (snd p)) \<in> set (zip xs ys))) \<and>
           card {p. on_board b' p \<and> tile_type (tile_at b' p) = Mine} = card (set (zip xs ys)) \<and>
           n_total_mines b' = int (card (set (zip xs ys))) \<and>
           n_total_mines b' \<le> \<lfloor>real_of_int (n * n) * density\<rfloor>"
proof -
  let ?coords = "remdups (zip xs ys)"
  let ?b0 = "b\<lparr>n_total_mines := int (length ?coords)\<rparr>"
  let ?ref = "\<lambda>c :: int \<times> int. (nat (fst c), nat (snd c))"
  from n_total_mines_new_board [OF assms(1)] obtain density where
    dens: "lookup DIFFICULTY_MAPPING d = Inr density"
      "n_total_mines b = \<lfloor>real_of_int (n * n) * density\<rfloor>" "0 \<le> n_total_mines b"
    by blast
  have sz: "bsize b = n" using new_board_fields [OF assms(1)] by simp
  have wfb: "wf_board b" using assms(1) by (rule wf_new_board)
  then have wf0: "wf_board ?b0" by (simp add: wf_board_iff)
  have rng: "0 \<le> fst c \<and> fst c < n \<and> 0 \<le> snd c \<and> snd c < n" if "c \<in> set (zip xs ys)" for c
  proof -
    from that have "(fst c, snd c) \<in> set (zip xs ys)" by simp
    then have "fst c \<in> set xs" and "snd c \<in> set ys"
      by (rule set_zip_leftD, rule set_zip_rightD)
    with assms(4,5) show ?thesis by auto
  qed
  then have "\<forall>c \<in> set ?coords. 0 \<le> fst c \<and> fst c < bsize ?b0 \<and> 0 \<le> snd c \<and> snd c < bsize ?b0"
    using sz by simp
  from plant_mines_result [OF wf0 this] obtain b' where
    b': "plant_mines ?b0 ?coords = Inr b'" "n_total_mines b' = n_total_mines ?b0"
        "\<forall>p. on_board b' p = on_board ?b0 p"
        "\<forall>p. on_board ?b0 p \<longrightarrow>
           (tile_type (tile_at b' p) = Mine \<longleftrightarrow>
            tile_type (tile_at ?b0 p) = Mine \<or> (int (fst p), int (snd p)) \<in> set ?coords)"
    by blast
  have same: "on_board ?b0 p = on_board b p" "tile_at ?b0 p = tile_at b p" for p
    by (simp_all add: on_board_def tile_at_def)
  have 1: "populate_board_with_mines b xs ys = Inr b'"
    using b'(1) by (simp add: populate_board_with_mines_def Let_def)
  have wf': "wf_board b'" "bsize b' = n"
    using wf_plant_mines [OF b'(1) wf0] sz by simp_all
  have link: "on_board b' p = on_board b p" for p
    using b'(3) [rule_format, of p] same(1) [of p] by simp
  have 2: "tile_type (tile_at b' p) = Mine \<longleftrightarrow> (int (fst p), int (snd p)) \<in> set (zip xs ys)"
    if "on_board b' p" for p
    using that b'(3) [rule_format, of p] b'(4) [rule_format, of p] same [of p]
      new_board_no_mines [OF assms(1), of p] by simp
  have on: "on_board b' (?ref c)" if "c \<in> set (zip xs ys)" for c
    using rng [OF that] wf' by (simp add: on_board_wf)
  have mine: "tile_type (tile_at b' (?ref c)) = Mine" if "c \<in> set (zip xs ys)" for c
    using 2 [OF on [OF that]] rng [OF that] that by simp
  have "{p. on_board b' p \<and> tile_type (tile_at b' p) = Mine} = ?ref ` set (zip xs ys)"
  proof (intro set_eqI iffI)
    fix p assume "p \<in> {p. on_board b' p \<and> tile_type (tile_at b' p) = Mine}"
    then have "(int (fst p), int (snd p)) \<in> set (zip xs ys)" using 2 [of p] by simp
    then have "?ref (int (fst p), int (snd p)) \<in> ?ref ` set (zip xs ys)" by (rule imageI)
    then show "p \<in> ?ref ` set (zip xs ys)" by simp
  next
    fix p assume "p \<in> ?ref ` set (zip xs ys)"
    then obtain c where "c \<in> set (zip xs ys)" "p = ?ref c" by blast
    then show "p \<in> {p. on_board b' p \<and> tile_type (tile_at b' p) = Mine}"
      using on [of c] mine [of c] by simp
  qed
  moreover have "inj_on ?ref (set (zip xs ys))"
  proof (rule inj_onI)
    fix c c' assume "c \<in> set (zip xs ys)" "c' \<in> set (zip xs ys)" "?ref c = ?ref c'"
    then have "nat (fst c) = nat (fst c')" "nat (snd c) = nat (snd c')"
      "0 \<le> fst c" "0 \<le> fst c'" "0 \<le> snd c" "0 \<le> snd c'"
      using rng [of c] rng [of c'] by simp_all
    then have "fst c = fst c'" "snd c = snd c'" by linarith+
    then show "c = c'" by (rule prod_eqI)
  qed
  ultimately have 4: "card {p. on_board b' p \<and> tile_type (tile_at b' p) = Mine} = card (set (zip xs ys))"
    by (simp add: card_image)
  have 3: "n_total_mines b' = int (card (set (zip xs ys)))"
    using b'(2) by (simp add: length_remdups_card_conv)
  have "card (set (zip xs ys)) \<le> length (zip xs ys)" by (rule card_length)
  also have "\<dots> = nat (n_total_mines b)" using assms(2,3) by simp
  finally have 5: "n_total_mines b' \<le> \<lfloor>real_of_int (n * n) * density\<rfloor>" using 3 dens(3) dens(2) by linarith
  have A: "\<forall>c \<in> set (zip xs ys).
              on_board b' (nat (fst c), nat (snd c)) \<and>
              tile_type (tile_at b' (nat (fst c), nat (snd c))) = Mine"
    using on mine by blast
  have B: "\<forall>p. on_board b' p \<longrightarrow>
              (tile_type (tile_at b' p) = Mine \<longleftrightarrow> (int (fst p), int (snd p)) \<in> set (zip xs ys))"
    using 2 by blast
  have C: "\<forall>p. on_board b' p = on_board b p" using link by blast
  from 1 dens(1) wf' C A B 4 3 5 show ?thesis by blast
qed

theorem populate_places_distinct_samples_witness:
  "populate_board_with_mines (projr (new_board 2 ''insane'')) [0, 0] [1, 1] \<noteq> Inl AttributeError \<and>
   n_total_mines (projr (populate_board_with_mines (projr (new_board 2 ''insane'')) [0, 0] [1, 1])) = 1 \<and>
   tile_type (tile_at (projr (populate_board_with_mines (projr (new_board 2 ''insane'')) [0, 0] [1, 1])) (0, 1)) = Mine"
proof -
  have nb: "new_board 2 ''insane'' = Inr (projr (new_board 2 ''insane''))"
    by (simp add: new_board_def set_number_of_mines_def lookup_def DIFFICULTY_MAPPING_def)
  have nm: "n_total_mines (projr (new_board 2 ''insane'')) = 2"
    by (simp add: new_board_def set_number_of_mines_def lookup_def DIFFICULTY_MAPPING_def)
  have "card (set (zip [0, 0] [1, 1 :: int])) = (1::nat)" by simp
  then show ?thesis
    using populate_places_distinct_samples [OF nb, of "[0, 0]" "[1, 1]"] nm
    by auto
qed

section \<open>The game loop\<close>

text \<open>
  C1: the loop body calls \<open>evaluate_tile\<close> whatever \<open>check_if_mine\<close> returned. On the
  board with its mine at row 0, column 1, the player picks that tile: the game is
  lost, and the tile is in the list of the calls of \<open>evaluate_tile\<close>.
\<close>

theorem minesweeper_loop_evaluates_mine:
  "tile_type (tile_at mined_board (0, 1)) = Mine \<and>
   map_sum id (\<lambda>r. (fst r, snd (snd r))) (minesweeper_loop 4 (mined_board, []) [(0, 1)])
     = Inr (False, [(0, 1)])"
  by code_simp

text \<open>
  C2: in the whole game, with the draws (0, 1) and (0, 1) the only mine is at row 0,
  column 1; after the player picks it the game is over and that tile's kind is Empty.
\<close>

theorem minesweeper_loses_the_mine:
  "map_sum id (\<lambda>r. (fst r, tile_type (tile_at (fst (snd r)) (0, 1))))
     (minesweeper 4 2 ''insane'' [0, 0] [1, 1] [(0, 1)])
     = Inr (False, Empty) \<and>
   map_sum id (\<lambda>b. tile_type (tile_at b (0, 1)))
     (populate_board_with_mines (projr (new_board 2 ''insane'')) [0, 0] [1, 1])
     = Inr Mine"
  by code_simp

section \<open>evaluate_tile\<close>

lemma get_tile_on_board: "get_tile b x y = Some r \<Longrightarrow> on_board b r"
  by (auto simp: get_tile_def on_board_def split: if_splits)

lemma set_map_filter_id: "set (List.map_filter id xs) = {y. Some y \<in> set xs}"
  by (induction xs) (auto split: option.splits)

lemma adjacent_tiles_iff:
  "q \<in> set (adjacent_tiles b t) \<longleftrightarrow>
     \<not> revealed (tile_at b q) \<and>
     (\<exists>c \<in> {(- 1, - 1), (- 1, 0), (- 1, 1), (0, - 1), (0, 1), (1, - 1), (1, 0), (1, 1)}.
        get_tile b (tile_x (tile_at b t) + fst c) (tile_y (tile_at b t) + snd c) = Some q)"
  by (simp only: adjacent_tiles_def Let_def set_filter set_map_filter_id) auto

lemma adjacent_tiles_on_board:
  "q \<in> set (adjacent_tiles b t) \<Longrightarrow> on_board b q \<and> \<not> revealed (tile_at b q)"
  unfolding adjacent_tiles_iff by (auto dest: get_tile_on_board)

lemma adjacent_tiles_wf:
  assumes "wf_board b" and "on_board b t"
  shows "q \<in> set (adjacent_tiles b t) \<longleftrightarrow>
           on_board b q \<and> q \<noteq> t \<and>
           \<bar>int (fst q) - int (fst t)\<bar> \<le> 1 \<and> \<bar>int (snd q) - int (snd t)\<bar> \<le> 1 \<and>
           \<not> revealed (tile_at b q)"
proof -
  let ?offs = "{(- 1, - 1), (- 1, 0), (- 1, 1), (0, - 1), (0, 1), (1, - 1), (1, 0), (1, 1)} :: (int \<times> int) set"
  have xy: "tile_x (tile_at b t) = int (fst t)" "tile_y (tile_at b t) = int (snd t)"
    using wf_tile_xy [OF assms] by simp_all
  have offs: "c \<in> ?offs \<longleftrightarrow> \<bar>fst c\<bar> \<le> 1 \<and> \<bar>snd c\<bar> \<le> 1 \<and> (fst c \<noteq> 0 \<or> snd c \<noteq> 0)" for c
  proof
    assume "c \<in> ?offs"
    then show "\<bar>fst c\<bar> \<le> 1 \<and> \<bar>snd c\<bar> \<le> 1 \<and> (fst c \<noteq> 0 \<or> snd c \<noteq> 0)" by auto
  next
    assume a: "\<bar>fst c\<bar> \<le> 1 \<and> \<bar>snd c\<bar> \<le> 1 \<and> (fst c \<noteq> 0 \<or> snd c \<noteq> 0)"
    then have "fst c = - 1 \<or> fst c = 0 \<or> fst c = 1" "snd c = - 1 \<or> snd c = 0 \<or> snd c = 1"
      by linarith+
    with a show "c \<in> ?offs" by (cases c) auto
  qed
  show ?thesis
  proof
    assume "q \<in> set (adjacent_tiles b t)"
    then obtain c where c: "c \<in> ?offs" "\<not> revealed (tile_at b q)"
      and g: "get_tile b (int (fst t) + fst c) (int (snd t) + snd c) = Some q"
      unfolding adjacent_tiles_iff xy by blast
    from g have on: "on_board b q" by (rule get_tile_on_board)
    from g have "int (fst q) = int (fst t) + fst c" "int (snd q) = int (snd t) + snd c"
      by (auto simp: get_tile_wf [OF assms(1)] split: if_splits)
    with c(1) [unfolded offs] have
      "\<bar>int (fst q) - int (fst t)\<bar> \<le> 1" "\<bar>int (snd q) - int (snd t)\<bar> \<le> 1" "q \<noteq> t"
      by auto
    with on c(2) show "on_board b q \<and> q \<noteq> t \<and>
           \<bar>int (fst q) - int (fst t)\<bar> \<le> 1 \<and> \<bar>int (snd q) - int (snd t)\<bar> \<le> 1 \<and>
           \<not> revealed (tile_at b q)" by simp
  next
    assume a: "on_board b q \<and> q \<noteq> t \<and>
           \<bar>int (fst q) - int (fst t)\<bar> \<le> 1 \<and> \<bar>int (snd q) - int (snd t)\<bar> \<le> 1 \<and>
           \<not> revealed (tile_at b q)"
    let ?c = "(int (fst q) - int (fst t), int (snd q) - int (snd t))"
    from a have "fst q \<noteq> fst t \<or> snd q \<noteq> snd t" by (auto simp: prod_eq_iff)
    with a have "?c \<in> ?offs" unfolding offs by simp
    moreover have "get_tile b (int (fst t) + fst ?c) (int (snd t) + snd ?c) = Some q"
      using a by (simp add: get_tile_wf [OF assms(1)] on_board_wf [OF assms(1)])
    ultimately show "q \<in> set (adjacent_tiles b t)"
      unfolding adjacent_tiles_iff xy using a by blast
  qed
qed





lemma tile_at_mark_tile:
  "on_board b t \<Longrightarrow>
   tile_at (mark_tile b t c) p =
     (if p = t then (tile_at b t)\<lparr>revealed := True, tile_type := Empty, n_adjacent_mines := c\<rparr>
      else tile_at b p)"
  by (simp add: mark_tile_def tile_at_update_tile)

lemma tile_at_mark_tile_other: "p \<noteq> t \<Longrightarrow> tile_at (mark_tile b t c) p = tile_at b p"
  by (simp add: mark_tile_def tile_at_update_other)






lemma wf_mark_tile: "wf_board b \<Longrightarrow> wf_board (mark_tile b t c)"
  unfolding mark_tile_def by (rule wf_update_tile) simp_all

lemma bsize_mark_tile [simp]: "bsize (mark_tile b t c) = bsize b"
  by (simp add: mark_tile_def)

text \<open>
  What a call of \<open>evaluate_tile\<close> keeps of the board it starts from: the form of the
  grid, the tiles on it, and the tiles that are revealed.
\<close>

lemma evaluate_keeps:
  assumes "wf_board (fst s)"
  shows "evaluate_tile d s tile = Some s' \<Longrightarrow>
           wf_board (fst s') \<and> bsize (fst s') = bsize (fst s) \<and>
           (\<forall>p. on_board (fst s') p = on_board (fst s) p) \<and>
           (\<forall>p. revealed (tile_at (fst s) p) \<longrightarrow> revealed (tile_at (fst s') p))"
    and "evaluate_each d s ts = Some s' \<Longrightarrow>
           wf_board (fst s') \<and> bsize (fst s') = bsize (fst s) \<and>
           (\<forall>p. on_board (fst s') p = on_board (fst s) p) \<and>
           (\<forall>p. revealed (tile_at (fst s) p) \<longrightarrow> revealed (tile_at (fst s') p))"
proof -
  let ?P = "\<lambda>b'. wf_board b' \<and> bsize b' = bsize (fst s) \<and>
           (\<forall>p. on_board b' p = on_board (fst s) p) \<and>
           (\<forall>p. revealed (tile_at (fst s) p) \<longrightarrow> revealed (tile_at b' p))"
  have step: "?P (mark_tile b t c)" if "?P b" for b t c
    using that by (simp add: wf_mark_tile revealed_mark_tile)
  have init: "?P (fst s)" using assms by simp
  show "evaluate_tile d s tile = Some s' \<Longrightarrow> ?P (fst s')"
    using evaluate_preserves(1) [where P = ?P, OF step _ init] by blast
  show "evaluate_each d s ts = Some s' \<Longrightarrow> ?P (fst s')"
    using evaluate_preserves(2) [where P = ?P, OF step _ init] by blast
qed

text \<open>
  The nesting of the calls: a call on a tile of a set \<open>V\<close> that holds every unrevealed
  tile needs a depth of at most the size of \<open>V\<close>. The nested calls are on tiles of
  \<open>V\<close> other than the tile, which is revealed before they are made.
\<close>

lemma evaluate_returns:
  shows "wf_board (fst s) \<Longrightarrow> on_board (fst s) tile \<Longrightarrow> finite V \<Longrightarrow>
         {p. on_board (fst s) p \<and> \<not> revealed (tile_at (fst s) p)} \<subseteq> V \<Longrightarrow> tile \<in> V \<Longrightarrow>
         card V \<le> d \<Longrightarrow> evaluate_tile d s tile \<noteq> None"
    and "wf_board (fst s) \<Longrightarrow> \<forall>q \<in> set ts. on_board (fst s) q \<Longrightarrow> finite V \<Longrightarrow>
         {p. on_board (fst s) p \<and> \<not> revealed (tile_at (fst s) p)} \<subseteq> V \<Longrightarrow> set ts \<subseteq> V \<Longrightarrow>
         card V \<le> d \<Longrightarrow> evaluate_each d s ts \<noteq> None"
proof (induction d s tile and d s ts arbitrary: V and V rule: evaluate_tile_evaluate_each.induct)
  case (1 s tile)
  then have "card V = 0" "V \<noteq> {}" by auto
  with \<open>finite V\<close> show ?case by simp
next
  case (2 d s tile)
  let ?adj = "adjacent_tiles (fst s) tile"
  let ?c = "count_mines (fst s) ?adj"
  let ?s1 = "(mark_tile (fst s) tile ?c, snd s @ [tile])"
  show ?case
  proof (cases "?c > 0")
    case True
    then show ?thesis by (simp add: Let_def)
  next
    case False
    have wf1: "wf_board (fst ?s1)" using "2.prems"(1) by (simp add: wf_mark_tile)
    have on1: "\<forall>q \<in> set ?adj. on_board (fst ?s1) q"
      using adjacent_tiles_on_board [of _ "fst s" tile] by simp
    have fin: "finite (V - {tile})" using "2.prems"(3) by simp
    have sub: "{p. on_board (fst ?s1) p \<and> \<not> revealed (tile_at (fst ?s1) p)} \<subseteq> V - {tile}"
    proof
      fix p assume "p \<in> {p. on_board (fst ?s1) p \<and> \<not> revealed (tile_at (fst ?s1) p)}"
      then have p: "on_board (fst s) p" "\<not> revealed (tile_at (mark_tile (fst s) tile ?c) p)" by simp_all
      from p(2) "2.prems"(2) have "p \<noteq> tile" by (auto simp: tile_at_mark_tile)
      with p have "\<not> revealed (tile_at (fst s) p)" by (simp add: tile_at_mark_tile_other)
      with p(1) "2.prems"(4) \<open>p \<noteq> tile\<close> show "p \<in> V - {tile}" by blast
    qed
    have "tile \<notin> set ?adj" using adjacent_tiles_wf [OF "2.prems"(1,2), of tile] by simp
    moreover have "set ?adj \<subseteq> V"
      using adjacent_tiles_on_board [of _ "fst s" tile] "2.prems"(4) by blast
    ultimately have adj: "set ?adj \<subseteq> V - {tile}" by blast
    have "card (V - {tile}) \<le> d" using "2.prems"(3,5,6) by simp
    from "2.IH" [OF refl refl False wf1 on1 fin sub adj this] False
    show ?thesis by (simp add: Let_def)
  qed
next
  case (3 d s)
  then show ?case by simp
next
  case (4 d s t ts)
  from "4.prems" have t: "on_board (fst s) t" "t \<in> V" by simp_all
  from "4.IH"(1) [OF "4.prems"(1) t(1) "4.prems"(3,4) t(2) "4.prems"(6)]
  obtain s1 where 1: "evaluate_tile d s t = Some s1" by blast
  note k = evaluate_keeps(1) [OF "4.prems"(1) 1]
  have wf1: "wf_board (fst s1)" using k by simp
  have on1: "\<forall>q \<in> set ts. on_board (fst s1) q" using k "4.prems"(2) by auto
  have sub: "{p. on_board (fst s1) p \<and> \<not> revealed (tile_at (fst s1) p)} \<subseteq> V"
    using k "4.prems"(4) by blast
  have "set ts \<subseteq> V" using "4.prems"(5) by simp
  from "4.IH"(2) [OF 1 wf1 on1 "4.prems"(3) sub this "4.prems"(6)] 1
  show ?case by simp
qed

lemma on_board_set: "wf_board b \<Longrightarrow> {p. on_board b p} = {..<nat (bsize b)} \<times> {..<nat (bsize b)}"
  by (auto simp: on_board_wf)

lemma evaluate_fuel:
  shows "evaluate_tile d s tile = Some s' \<Longrightarrow> d \<le> d' \<Longrightarrow> evaluate_tile d' s tile = Some s'"
    and "evaluate_each d s ts = Some s' \<Longrightarrow> d \<le> d' \<Longrightarrow> evaluate_each d' s ts = Some s'"
proof (induction d s tile and d s ts arbitrary: s' d' and s' d' rule: evaluate_tile_evaluate_each.induct)
  case (1 s tile)
  then show ?case by simp
next
  case (2 d s tile)
  from "2.prems"(2) obtain e where e: "d' = Suc e" "d \<le> e" by (cases d') auto
  let ?adj = "adjacent_tiles (fst s) tile"
  let ?c = "count_mines (fst s) ?adj"
  show ?case
  proof (cases "?c > 0")
    case True
    with "2.prems"(1) e show ?thesis by (simp add: Let_def)
  next
    case False
    with "2.prems"(1) have "evaluate_each d (mark_tile (fst s) tile ?c, snd s @ [tile]) ?adj = Some s'"
      by (simp add: Let_def)
    from "2.IH" [OF refl refl False this e(2)] False e show ?thesis by (simp add: Let_def)
  qed
next
  case (3 d s)
  then show ?case by simp
next
  case (4 d s t ts)
  from "4.prems"(1) obtain s1 where 1: "evaluate_tile d s t = Some s1"
    and 2: "evaluate_each d s1 ts = Some s'" by (auto split: option.splits)
  from "4.IH"(1) [OF 1 "4.prems"(2)] "4.IH"(2) [OF 1 2 "4.prems"(2)] show ?case by simp
qed

text \<open>
  C8: on a board of the form \<open>board_init\<close> builds, for every tile of the grid and in
  every state of the tiles, \<open>evaluate_tile\<close> returns when it may nest as deep as the
  number of tiles, size times size; a larger limit gives the same result. The bound
  is on the depth of the nesting, the first argument of \<open>evaluate_tile\<close>.
\<close>

theorem evaluate_tile_returns_within_area:
  assumes "wf_board (fst s)" and "on_board (fst s) tile"
    and "nat (bsize (fst s) * bsize (fst s)) \<le> d"
  shows "\<exists>s'. evaluate_tile (nat (bsize (fst s) * bsize (fst s))) s tile = Some s' \<and>
              evaluate_tile d s tile = Some s'"
proof -
  let ?V = "{p. on_board (fst s) p}"
  let ?n = "nat (bsize (fst s))"
  have V: "?V = {..<?n} \<times> {..<?n}" using assms(1) by (rule on_board_set)
  then have fin: "finite ?V" by simp
  have "0 < bsize (fst s)" using assms(1,2) by (simp add: on_board_wf)
  then have "card ?V = nat (bsize (fst s) * bsize (fst s))"
    unfolding V by (simp add: nat_mult_distrib)
  then have "card ?V \<le> nat (bsize (fst s) * bsize (fst s))" by simp
  from evaluate_returns(1) [OF assms(1,2) fin _ _ this] assms(2)
  obtain s' where 1: "evaluate_tile (nat (bsize (fst s) * bsize (fst s))) s tile = Some s'" by auto
  from evaluate_fuel(1) [OF 1 assms(3)] 1 show ?thesis by blast
qed

theorem evaluate_tile_returns_within_area_witness:
  "evaluate_tile 4 (example_board, []) (0, 0) \<noteq> None \<and>
   evaluate_tile 6 (mined_board, []) (1, 1) = evaluate_tile 4 (mined_board, []) (1, 1)"
proof -
  have 1: "wf_board (fst (example_board, []))" using wf_example_board by simp
  have 2: "wf_board (fst (mined_board, []))" using wf_mined_board by simp
  have 3: "on_board (fst (example_board, [])) (0, 0)" by code_simp
  have 4: "on_board (fst (mined_board, [])) (1, 1)" by code_simp
  have 5: "nat (bsize (fst (example_board, [])) * bsize (fst (example_board, []))) = 4" by code_simp
  have 6: "nat (bsize (fst (mined_board, [])) * bsize (fst (mined_board, []))) = 4" by code_simp
  show ?thesis
    using evaluate_tile_returns_within_area [OF 1 3, of 4]
          evaluate_tile_returns_within_area [OF 2 4, of 6]
    unfolding 5 6 by auto
qed

section \<open>Flood fill\<close>

















end
